theory Spec2Isabelle
  imports Main "HOL-Library.Word"
begin

unbundle bit_operations_syntax

section \<open>Data model of the mount layer (vfs/mount.cc, vfs/anon_node.cc)\<close>

text \<open>
  A member that the source names with a trailing underscore (\<^verbatim>\<open>root_\<close>) is written with a
  prime here (\<open>root'\<close>): an Isabelle name cannot end with an underscore.

  Objects that the code only reads are values. Objects that the code mutates or whose
  identity matters (the kernel with its mount-id counter and its anonymous file system
  cell; file systems, which are allocated) live in an explicit store and are named by an
  address.
\<close>

type_synonym addr = nat
type_synonym u64 = "64 word"

text \<open>
  \<^verbatim>\<open>MountFlags\<close> is a bit set over \<^verbatim>\<open>uint32_t\<close>. The header mount_flags.h is not among
  the sources, so the bit patterns of the three enumerators that mount.cc names are
  parameters of the model, passed as a record.
\<close>

type_synonym MountFlags = "32 word"

record MountFlagsEnum =
  RDONLY :: MountFlags
  NOATIME :: MountFlags
  STORED_ON_MOUNT :: MountFlags

text \<open>The two bit-set queries that mount.cc calls, with their usual meaning.\<close>

definition contains :: "MountFlags \<Rightarrow> MountFlags \<Rightarrow> bool" where
  "contains flags other = (flags AND other = other)"

definition intersects :: "MountFlags \<Rightarrow> MountFlags \<Rightarrow> bool" where
  "intersects flags other = (flags AND other \<noteq> 0)"

text \<open>The error codes of the taxonomy; mount.cc produces \<^verbatim>\<open>EROFS\<close> only.\<close>

datatype Errno = ENOENT | EEXIST | ENOTDIR | ENAMETOOLONG | EINVAL | EROFS

text \<open>
  Every way the modelled code aborts instead of returning:
  \<^item> \<^verbatim>\<open>ASSERT(!flags.intersects(known_flags))\<close>,
  \<^item> \<^verbatim>\<open>ASSERT_MSG(kernel, "can't create mount without a kernel")\<close>,
  \<^item> \<^verbatim>\<open>ZX_ASSERT(ac.check())\<close> after an allocation,
  \<^item> \<^verbatim>\<open>value()\<close> of an empty \<^verbatim>\<open>ktl::optional\<close>,
  \<^item> \<^verbatim>\<open>ktl::get\<close> of the alternative a variant does not hold,
  \<^item> a dereference of a null or dangling pointer.
\<close>

datatype panic =
    ASSERT_flags_intersect
  | ASSERT_no_kernel
  | ZX_ASSERT_ac_check
  | bad_optional_access
  | bad_variant_access
  | null_deref

text \<open>
  \<^verbatim>\<open>fbl::RefPtr<T>\<close> may be null. A weak pointer to a value object is modelled by what
  \<^verbatim>\<open>Lock()\<close> returns when it is called: \<open>Null\<close> once the referent has been dropped.
\<close>

datatype 'a RefPtr = Null | Ref 'a

datatype 'a WeakPtr = WeakPtr (Lock: "'a RefPtr")

text \<open>\<^verbatim>\<open>FsNode\<close>: only the file system that \<^verbatim>\<open>fs()\<close> returns is read here.\<close>

record FsNode =
  fs :: addr

text \<open>\<^verbatim>\<open>DirEntry\<close> (dir_entry.h): the node and the fields of \<^verbatim>\<open>DirEntryState\<close>.\<close>

datatype DirEntry =
  DirEntry (node': FsNode) (parent: "DirEntry option") (local_name: string)
    (is_dead: bool) (mount_count: "32 word")

text \<open>
  \<^verbatim>\<open>Mount\<close>: the members the constructor initialises, in the order of its parameters, and
  the \<^verbatim>\<open>mountpoint\<close> of its state, which the constructor leaves empty.
\<close>

datatype Mount =
  Mount (id': u64) (flags': MountFlags) (root': DirEntry) (fs': addr)
    (mountpoint: "(Mount WeakPtr \<times> DirEntry) option")

type_synonym MountHandle = "Mount RefPtr"

record MountInfo =
  handle' :: "MountHandle option"

record NamespaceNode =
  mount' :: MountInfo
  entry' :: DirEntry

datatype WhatToMountEnum = Fs | Bind

datatype WhatToMount_what = WhatFs addr | WhatBind NamespaceNode

record WhatToMount =
  type :: WhatToMountEnum
  what :: WhatToMount_what

datatype CacheModeType = Permanent | Cached | Uncached

datatype FileSystemOps = AnonFs | OtherFs

text \<open>
  Modelled from the spec: file_system.h is not among the sources. A file system keeps a weak
  reference to its kernel (\<^verbatim>\<open>kernel_\<close>, read by mount.cc), the root entry that \<^verbatim>\<open>root()\<close>
  returns (absent until one is set), and what \<^verbatim>\<open>FileSystem::New\<close> was given.
\<close>

record FileSystem =
  kernel' :: addr
  root_entry :: "DirEntry option"
  cache_mode :: CacheModeType
  ops :: FileSystemOps

text \<open>
  Modelled from the spec: kernel.h is not among the sources. The two kernel-scoped
  allocators: the monotonic mount-id counter (an \<^verbatim>\<open>uint64_t\<close>, as the \<^verbatim>\<open>id\<close> parameter of
  the \<^verbatim>\<open>Mount\<close> constructor) and the lazily constructed anonymous file system.
\<close>

record Kernel =
  next_mount_id' :: u64
  anon_fs' :: "addr option"

record world =
  kernels :: "addr \<Rightarrow> Kernel option"
  filesystems :: "FileSystem list"

definition fs_at :: "world \<Rightarrow> addr \<Rightarrow> FileSystem option" where
  "fs_at w a = (if a < length (filesystems w) then Some (filesystems w ! a) else None)"

section \<open>Helpers whose code is not among the sources\<close>

text \<open>
  Modelled from the spec: the monotonic mount-id counter. \<^verbatim>\<open>next()\<close> hands out the current
  value and advances the counter by one; the result is (value handed out, new counter).
  The values are \<^verbatim>\<open>uint64_t\<close>, so the counter is monotonic as long as the values it hands
  out do not pass the largest one. What \<^verbatim>\<open>next()\<close> does after that is not given by the
  sources; the theorems on the order of the ids are stated for the monotonic range only.
\<close>

definition AtomicCounter_next :: "u64 \<Rightarrow> u64 \<times> u64" where
  "AtomicCounter_next c = (c, c + 1)"

text \<open>
  Modelled from the spec: the cell of the lazily constructed singleton, with the three
  operations anon_node.cc calls.
\<close>

definition is_initialized :: "'a option \<Rightarrow> bool" where
  "is_initialized c = (c \<noteq> None)"

definition OnceCell_set :: "'a option \<Rightarrow> 'a \<Rightarrow> 'a option" where
  "OnceCell_set c v = (if is_initialized c then c else Some v)"

definition OnceCell_get :: "'a option \<Rightarrow> panic + 'a" where
  "OnceCell_get c = (case c of None \<Rightarrow> Inl bad_optional_access | Some v \<Rightarrow> Inr v)"

text \<open>
  Modelled from the spec: \<^verbatim>\<open>FileSystem::New\<close> allocates a file system object; its handle is
  the next free address of the store.
\<close>

definition FileSystem_New ::
  "world \<Rightarrow> addr \<Rightarrow> CacheModeType \<Rightarrow> FileSystemOps \<Rightarrow> addr \<times> world" where
  "FileSystem_New w kern options fsops =
     (length (filesystems w),
      w\<lparr>filesystems := filesystems w @
         [\<lparr>kernel' = kern, root_entry = None, cache_mode = options, ops = fsops\<rparr>]\<rparr>)"

text \<open>Modelled from the spec: \<^verbatim>\<open>FileSystem::root()\<close>, the root entry of a file system.\<close>

definition FileSystem_root :: "world \<Rightarrow> addr \<Rightarrow> panic + DirEntry" where
  "FileSystem_root w a =
     (case fs_at w a of
        None \<Rightarrow> Inl null_deref
      | Some f \<Rightarrow> (case root_entry f of None \<Rightarrow> Inl bad_optional_access | Some r \<Rightarrow> Inr r))"

text \<open>
  Modelled from the spec: \<^verbatim>\<open>NamespaceNode::New(mount, entry)\<close> pairs the attached mount
  with the entry, as \<^verbatim>\<open>Mount::root()\<close> does by hand.
\<close>

definition NamespaceNode_New :: "MountHandle \<Rightarrow> DirEntry \<Rightarrow> NamespaceNode" where
  "NamespaceNode_New mount entry = \<lparr>mount' = \<lparr>handle' = Some mount\<rparr>, entry' = entry\<rparr>"

section \<open>mount.cc\<close>

definition MountInfo_detached :: MountInfo where
  "MountInfo_detached = \<lparr>handle' = None\<rparr>"

text \<open>The attached context of the spec: a \<^verbatim>\<open>MountInfo\<close> that holds a mount.\<close>

definition MountInfo_attached :: "Mount \<Rightarrow> MountInfo" where
  "MountInfo_attached m = \<lparr>handle' = Some (Ref m)\<rparr>"

definition Mount_flags :: "Mount \<Rightarrow> MountFlags" where
  "Mount_flags m = flags' m"

definition MountInfo_flags :: "MountFlagsEnum \<Rightarrow> MountInfo \<Rightarrow> panic + MountFlags" where
  "MountInfo_flags E mi =
     (case handle' mi of
        Some h \<Rightarrow> (case h of Null \<Rightarrow> Inl null_deref | Ref m \<Rightarrow> Inr (Mount_flags m))
      | None \<Rightarrow> Inr (NOATIME E))"

definition MountInfo_check_readonly_filesystem ::
  "MountFlagsEnum \<Rightarrow> MountInfo \<Rightarrow> panic + (Errno + unit)" where
  "MountInfo_check_readonly_filesystem E mi =
     (case MountInfo_flags E mi of
        Inl p \<Rightarrow> Inl p
      | Inr flags \<Rightarrow> Inr (if contains flags (RDONLY E) then Inl EROFS else Inr ()))"

definition Mount_root :: "Mount \<Rightarrow> NamespaceNode" where
  "Mount_root this = \<lparr>mount' = \<lparr>handle' = Some (Ref this)\<rparr>, entry' = root' this\<rparr>"

definition Mount_mountpoint :: "Mount \<Rightarrow> panic + NamespaceNode option" where
  "Mount_mountpoint this =
     (case mountpoint this of
        None \<Rightarrow> Inl bad_optional_access
      | Some (mount, entry) \<Rightarrow> Inr (Some (NamespaceNode_New (Lock mount) entry)))"

text \<open>
  \<^verbatim>\<open>new_with_root\<close>. The Boolean \<open>ac\<close> is what \<^verbatim>\<open>ac.check()\<close> reports for the allocation of
  the mount; the constructor arguments, and with them \<^verbatim>\<open>next()\<close>, are evaluated only when the
  allocation succeeded. The store is returned with the advanced counter of the kernel; at
  an abort it is the store before the call.
\<close>

definition new_with_root ::
  "MountFlagsEnum \<Rightarrow> bool \<Rightarrow> world \<Rightarrow> DirEntry \<Rightarrow> MountFlags \<Rightarrow> (panic + MountHandle) \<times> world" where
  "new_with_root E ac w root flags =
     (let known_flags = STORED_ON_MOUNT E in
      if intersects flags known_flags then (Inl ASSERT_flags_intersect, w)
      else
        let fsh = fs (node' root) in
        case fs_at w fsh of
          None \<Rightarrow> (Inl null_deref, w)
        | Some f \<Rightarrow>
            (case kernels w (kernel' f) of
               None \<Rightarrow> (Inl ASSERT_no_kernel, w)
             | Some k \<Rightarrow>
                 if \<not> ac then (Inl ZX_ASSERT_ac_check, w)
                 else
                   let (i, c) = AtomicCounter_next (next_mount_id' k) in
                   (Inr (Ref (Mount i flags root fsh None)),
                    w\<lparr>kernels := (kernels w)(kernel' f \<mapsto> k\<lparr>next_mount_id' := c\<rparr>)\<rparr>)))"

definition Mount_New ::
  "MountFlagsEnum \<Rightarrow> bool \<Rightarrow> world \<Rightarrow> WhatToMount \<Rightarrow> MountFlags \<Rightarrow> (panic + MountHandle) \<times> world" where
  "Mount_New E ac w wh flags =
     (case type wh of
        Fs \<Rightarrow>
          (case what wh of
             WhatFs fsh \<Rightarrow>
               (case FileSystem_root w fsh of
                  Inl p \<Rightarrow> (Inl p, w)
                | Inr r \<Rightarrow> new_with_root E ac w r flags)
           | WhatBind n \<Rightarrow> (Inl bad_variant_access, w))
      | Bind \<Rightarrow> (Inr Null, w))"

section \<open>anon_node.cc\<close>

text \<open>
  \<^verbatim>\<open>anon_fs\<close>. The Boolean \<open>ac\<close> is what \<^verbatim>\<open>ac.check()\<close> reports for the allocation of the
  \<^verbatim>\<open>AnonFs\<close> operations, which happens only when the cell is not initialised.
\<close>

definition anon_fs :: "bool \<Rightarrow> world \<Rightarrow> addr \<Rightarrow> (panic + addr) \<times> world" where
  "anon_fs ac w kern =
     (case kernels w kern of
        None \<Rightarrow> (Inl null_deref, w)
      | Some k \<Rightarrow>
          if \<not> is_initialized (anon_fs' k) then
            if \<not> ac then (Inl ZX_ASSERT_ac_check, w)
            else
              let (h, w1) = FileSystem_New w kern Uncached AnonFs;
                  k1 = k\<lparr>anon_fs' := OnceCell_set (anon_fs' k) h\<rparr>
              in (OnceCell_get (anon_fs' k1), w1\<lparr>kernels := (kernels w1)(kern \<mapsto> k1)\<rparr>)
          else (OnceCell_get (anon_fs' k), w))"

section \<open>Sequential executions\<close>

text \<open>
  A sequential execution is a list of calls to the three entry points, run one after the
  other on the store. An abort ends the execution. The results are kept in call order.
\<close>

datatype call =
    call_new_with_root bool DirEntry MountFlags
  | call_Mount_New bool WhatToMount MountFlags
  | call_anon_fs bool addr

datatype ret = ret_mount MountHandle | ret_fs addr

definition exec :: "MountFlagsEnum \<Rightarrow> world \<Rightarrow> call \<Rightarrow> (panic + ret) \<times> world" where
  "exec E w c =
     (case c of
        call_new_with_root ac r flags \<Rightarrow>
          (case new_with_root E ac w r flags of (x, w1) \<Rightarrow> (map_sum id ret_mount x, w1))
      | call_Mount_New ac wh flags \<Rightarrow>
          (case Mount_New E ac w wh flags of (x, w1) \<Rightarrow> (map_sum id ret_mount x, w1))
      | call_anon_fs ac kern \<Rightarrow>
          (case anon_fs ac w kern of (x, w1) \<Rightarrow> (map_sum id ret_fs x, w1)))"

fun run :: "MountFlagsEnum \<Rightarrow> world \<Rightarrow> call list \<Rightarrow> panic + (ret list \<times> world)" where
  "run E w [] = Inr ([], w)"
| "run E w (c # cs) =
     (case exec E w c of
        (Inl p, w1) \<Rightarrow> Inl p
      | (Inr x, w1) \<Rightarrow>
          (case run E w1 cs of Inl p \<Rightarrow> Inl p | Inr (xs, w2) \<Rightarrow> Inr (x # xs, w2)))"

text \<open>The kernel a mount belongs to: the one its file system refers to (\<^verbatim>\<open>fs_->kernel_\<close>).\<close>

definition mount_kernel :: "world \<Rightarrow> Mount \<Rightarrow> addr option" where
  "mount_kernel w m = map_option kernel' (fs_at w (fs' m))"

text \<open>The file systems constructed for a kernel between two stores.\<close>

definition constructed_for :: "addr \<Rightarrow> world \<Rightarrow> world \<Rightarrow> FileSystem list" where
  "constructed_for kern w w1 =
     filter (\<lambda>f. kernel' f = kern) (drop (length (filesystems w)) (filesystems w1))"

text \<open>
  The mounts that the calls of an execution constructed, in the order of their creation,
  and those of them that belong to a given kernel.
\<close>

fun created :: "ret list \<Rightarrow> Mount list" where
  "created [] = []"
| "created (ret_mount (Ref m) # rs) = m # created rs"
| "created (ret_mount Null # rs) = created rs"
| "created (ret_fs h # rs) = created rs"

definition mounts_on :: "addr \<Rightarrow> world \<Rightarrow> ret list \<Rightarrow> Mount list" where
  "mounts_on kern w rs = filter (\<lambda>m. mount_kernel w m = Some kern) (created rs)"

section \<open>Concrete inputs\<close>

text \<open>
  Example bit patterns for the three enumerators (the numbers of the Linux
  \<^verbatim>\<open>MS_RDONLY\<close>, \<^verbatim>\<open>MS_NOATIME\<close> and of the union of the per-mount \<^verbatim>\<open>MS_*\<close> flags), and a
  small store: one kernel at address 0 whose counter stands at 1, and one file system at
  address 0 that belongs to it. They are used to evaluate the model at concrete inputs.
\<close>

definition example_flags :: MountFlagsEnum where
  "example_flags = \<lparr>RDONLY = 1, NOATIME = 1024, STORED_ON_MOUNT = 2100239\<rparr>"

definition root0 :: DirEntry where
  "root0 = DirEntry \<lparr>fs = 0\<rparr> None [] False 0"

definition fs0 :: FileSystem where
  "fs0 = \<lparr>kernel' = 0, root_entry = Some root0, cache_mode = Cached, ops = OtherFs\<rparr>"

definition k0 :: Kernel where
  "k0 = \<lparr>next_mount_id' = 1, anon_fs' = None\<rparr>"

definition w0 :: world where
  "w0 = \<lparr>kernels = [0 \<mapsto> k0], filesystems = [fs0]\<rparr>"

text \<open>The same store after the kernel has been dropped.\<close>

definition w_dead :: world where
  "w_dead = \<lparr>kernels = Map.empty, filesystems = [fs0]\<rparr>"

text \<open>A mount whose flags are \<^verbatim>\<open>RDONLY\<close>, and a mount grafted on a parent that was dropped.\<close>

definition ro_mount :: Mount where
  "ro_mount = Mount 7 1 root0 0 None"

definition orphan_mount :: Mount where
  "orphan_mount = Mount 8 0 root0 0 (Some (WeakPtr Null, root0))"

section \<open>Flag queries\<close>

text \<open>
  C3. \<^verbatim>\<open>MountInfo::flags()\<close> of an attached context is the flag set of its mount; of the
  detached context it is exactly \<^verbatim>\<open>NOATIME\<close>, and it does not fail.
\<close>

theorem C3_flags:
  "MountInfo_flags E (MountInfo_attached m) = Inr (flags' m) \<and>
   MountInfo_flags E MountInfo_detached = Inr (NOATIME E)"
  by (simp add: MountInfo_flags_def MountInfo_attached_def MountInfo_detached_def Mount_flags_def)

text \<open>
  C2. \<^verbatim>\<open>check_readonly_filesystem()\<close> returns \<^verbatim>\<open>EROFS\<close> exactly when \<^verbatim>\<open>flags()\<close> contains
  \<^verbatim>\<open>RDONLY\<close> and succeeds otherwise. In particular the detached context succeeds (its flag set
  is \<^verbatim>\<open>NOATIME\<close>, which does not contain the \<^verbatim>\<open>RDONLY\<close> bit), and a context attached to a
  mount whose flags contain \<^verbatim>\<open>RDONLY\<close> fails with \<^verbatim>\<open>EROFS\<close>.
\<close>

theorem C2_check_readonly_filesystem:
  "(\<forall>mi f. MountInfo_flags E mi = Inr f \<longrightarrow>
      (MountInfo_check_readonly_filesystem E mi = Inr (Inl EROFS) \<longleftrightarrow> contains f (RDONLY E)) \<and>
      (MountInfo_check_readonly_filesystem E mi = Inr (Inr ()) \<longleftrightarrow> \<not> contains f (RDONLY E))) \<and>
   (\<not> contains (NOATIME E) (RDONLY E) \<longrightarrow>
      MountInfo_check_readonly_filesystem E MountInfo_detached = Inr (Inr ())) \<and>
   (contains (flags' m) (RDONLY E) \<longrightarrow>
      MountInfo_check_readonly_filesystem E (MountInfo_attached m) = Inr (Inl EROFS))"
  by (simp add: MountInfo_check_readonly_filesystem_def MountInfo_flags_def
      MountInfo_attached_def MountInfo_detached_def Mount_flags_def)

theorem C2_check_readonly_filesystem_witness:
  "MountInfo_flags example_flags (MountInfo_attached ro_mount) = Inr 1 \<and>
   contains 1 (RDONLY example_flags) \<and>
   \<not> contains (NOATIME example_flags) (RDONLY example_flags) \<and>
   MountInfo_check_readonly_filesystem example_flags MountInfo_detached = Inr (Inr ()) \<and>
   MountInfo_check_readonly_filesystem example_flags (MountInfo_attached ro_mount) = Inr (Inl EROFS)"
proof -
  have c: "contains 1 (RDONLY example_flags)"
    by (simp add: contains_def example_flags_def)
  have n: "\<not> contains (NOATIME example_flags) (RDONLY example_flags)"
    by (simp add: contains_def example_flags_def)
  have f: "MountInfo_flags example_flags (MountInfo_attached ro_mount) = Inr 1"
    by (simp add: MountInfo_flags_def MountInfo_attached_def Mount_flags_def ro_mount_def)
  have r: "flags' ro_mount = 1"
    by (simp add: ro_mount_def)
  from C2_check_readonly_filesystem [of example_flags ro_mount] c n f r
  show ?thesis by simp
qed

section \<open>Namespace locations of a mount\<close>

text \<open>
  C7. \<^verbatim>\<open>Mount::root()\<close> is the location whose context is attached to the mount itself and
  whose entry is the root entry of the mount. It is a total function of the mount.
\<close>

theorem C7_root:
  "Mount_root m = \<lparr>mount' = MountInfo_attached m, entry' = root' m\<rparr> \<and>
   handle' (mount' (Mount_root m)) = Some (Ref m) \<and>
   entry' (Mount_root m) = root' m"
  by (simp add: Mount_root_def MountInfo_attached_def)

text \<open>
  \<^verbatim>\<open>Mount::mountpoint()\<close> never returns the empty optional: it aborts or returns a location.
\<close>

lemma Mount_mountpoint_never_None: "Mount_mountpoint m \<noteq> Inr None"
  by (simp add: Mount_mountpoint_def split: option.splits prod.splits)

text \<open>
  When the mountpoint is present and the parent mount is alive, \<^verbatim>\<open>Mount::mountpoint()\<close>
  returns the location that pairs the attached parent with the entry the mount is grafted on.
\<close>

lemma Mount_mountpoint_alive:
  "mountpoint m = Some (WeakPtr (Ref p), e) \<Longrightarrow>
   Mount_mountpoint m = Inr (Some \<lparr>mount' = MountInfo_attached p, entry' = e\<rparr>)"
  by (simp add: Mount_mountpoint_def NamespaceNode_New_def MountInfo_attached_def)

lemma Mount_mountpoint_alive_witness:
  "mountpoint (Mount 9 0 root0 0 (Some (WeakPtr (Ref ro_mount), root0))) =
     Some (WeakPtr (Ref ro_mount), root0) \<and>
   Mount_mountpoint (Mount 9 0 root0 0 (Some (WeakPtr (Ref ro_mount), root0))) =
     Inr (Some \<lparr>mount' = MountInfo_attached ro_mount, entry' = root0\<rparr>)"
  using Mount_mountpoint_alive [of "Mount 9 0 root0 0 (Some (WeakPtr (Ref ro_mount), root0))"
      ro_mount root0]
  by simp

text \<open>
  C1. \<^verbatim>\<open>Mount::mountpoint()\<close> at a namespace root and at a mount whose parent was dropped. The
  mount that \<^verbatim>\<open>new_with_root\<close> builds has no mountpoint: there the code takes \<^verbatim>\<open>value()\<close> of
  the empty optional and aborts. When the parent was dropped, the code wraps the null
  handle that \<^verbatim>\<open>Lock()\<close> returned. In neither case does it return the empty optional.
\<close>

theorem C1_mountpoint_evaluated:
  "fst (new_with_root example_flags True w0 root0 0) = Inr (Ref (Mount 1 0 root0 0 None)) \<and>
   Mount_mountpoint (Mount 1 0 root0 0 None) = Inl bad_optional_access \<and>
   Mount_mountpoint orphan_mount =
     Inr (Some \<lparr>mount' = \<lparr>handle' = Some Null\<rparr>, entry' = root0\<rparr>)"
  by (simp add: new_with_root_def Mount_mountpoint_def NamespaceNode_New_def orphan_mount_def
      example_flags_def w0_def root0_def fs0_def k0_def fs_at_def intersects_def
      AtomicCounter_next_def)

section \<open>Construction of mounts\<close>

lemma new_with_root_cases:
  "new_with_root E ac w r flags =
     (if intersects flags (STORED_ON_MOUNT E) then (Inl ASSERT_flags_intersect, w)
      else case fs_at w (fs (node' r)) of
          None \<Rightarrow> (Inl null_deref, w)
        | Some f \<Rightarrow>
            (case kernels w (kernel' f) of
               None \<Rightarrow> (Inl ASSERT_no_kernel, w)
             | Some k \<Rightarrow>
                 if \<not> ac then (Inl ZX_ASSERT_ac_check, w)
                 else (Inr (Ref (Mount (next_mount_id' k) flags r (fs (node' r)) None)),
                    w\<lparr>kernels := (kernels w)(kernel' f \<mapsto> k\<lparr>next_mount_id' := next_mount_id' k + 1\<rparr>)\<rparr>)))"
  by (simp add: new_with_root_def AtomicCounter_next_def Let_def split: option.splits)

lemma new_with_root_Inr:
  assumes "new_with_root E ac w r flags = (Inr h, w1)"
  obtains f k where "fs_at w (fs (node' r)) = Some f" and "kernels w (kernel' f) = Some k"
    and "h = Ref (Mount (next_mount_id' k) flags r (fs (node' r)) None)"
    and "w1 = w\<lparr>kernels := (kernels w)(kernel' f \<mapsto> k\<lparr>next_mount_id' := next_mount_id' k + 1\<rparr>)\<rparr>"
  using assms by (auto simp: new_with_root_cases split: option.splits if_splits)

lemma Mount_New_Inr:
  assumes "Mount_New E ac w wh flags = (Inr h, w1)"
  shows "(h = Null \<and> w1 = w) \<or> (\<exists>r. new_with_root E ac w r flags = (Inr h, w1))"
  using assms by (auto simp: Mount_New_def split: WhatToMountEnum.splits WhatToMount_what.splits sum.splits)

text \<open>
  C9. \<^verbatim>\<open>Mount::New\<close> of a bind-type \<^verbatim>\<open>WhatToMount\<close> returns the null handle for every flag
  set and whatever the variant holds; the store, and with it every mount-id counter, is
  unchanged, and no assertion is reached.
\<close>

theorem C9_New_Bind:
  "Mount_New E ac w \<lparr>type = Bind, what = v\<rparr> flags = (Inr Null, w)"
  by (simp add: Mount_New_def)

text \<open>
  C6. For a \<^verbatim>\<open>WhatToMount\<close> that holds a file system, \<^verbatim>\<open>Mount::New\<close> is \<^verbatim>\<open>new_with_root\<close>
  applied to the root entry of that file system: same handle (or same abort), same store.
\<close>

theorem C6_New_Fs:
  "FileSystem_root w fsh = Inr r \<Longrightarrow>
   Mount_New E ac w \<lparr>type = Fs, what = WhatFs fsh\<rparr> flags = new_with_root E ac w r flags"
  by (simp add: Mount_New_def)

theorem C6_New_Fs_witness:
  "FileSystem_root w0 0 = Inr root0 \<and>
   Mount_New example_flags True w0 \<lparr>type = Fs, what = WhatFs 0\<rparr> 0 =
     new_with_root example_flags True w0 root0 0 \<and>
   fst (Mount_New example_flags True w0 \<lparr>type = Fs, what = WhatFs 0\<rparr> 0) =
     Inr (Ref (Mount 1 0 root0 0 None))"
proof -
  have r: "FileSystem_root w0 0 = Inr root0"
    by (simp add: FileSystem_root_def fs_at_def w0_def fs0_def)
  have n: "fst (new_with_root example_flags True w0 root0 0) = Inr (Ref (Mount 1 0 root0 0 None))"
    by (simp add: new_with_root_def example_flags_def w0_def root0_def fs0_def k0_def
        fs_at_def intersects_def AtomicCounter_next_def)
  from C6_New_Fs [OF r, of example_flags True 0] r n show ?thesis by simp
qed



text \<open>
  C10. \<^verbatim>\<open>new_with_root\<close> needs a live kernel. When the weak kernel reference of the file system
  of the root entry can be upgraded, the assertion "can't create mount without a kernel" does
  not fire, and once the flags have passed their assertion and the mount is allocated the
  construction succeeds: the mount gets the current counter value and the counter
  advances. When the reference is dead the call aborts in that assertion. The call never
  returns an error value: it returns a handle or aborts in one of its three assertions.
\<close>

theorem C10_new_with_root_kernel:
  "fs_at w (fs (node' r)) = Some f \<Longrightarrow>
   (\<forall>k. kernels w (kernel' f) = Some k \<longrightarrow>
      fst (new_with_root E ac w r flags) \<noteq> Inl ASSERT_no_kernel \<and>
      (\<not> intersects flags (STORED_ON_MOUNT E) \<and> ac \<longrightarrow>
         new_with_root E ac w r flags =
           (Inr (Ref (Mount (next_mount_id' k) flags r (fs (node' r)) None)),
            w\<lparr>kernels := (kernels w)(kernel' f \<mapsto> k\<lparr>next_mount_id' := next_mount_id' k + 1\<rparr>)\<rparr>))) \<and>
   (kernels w (kernel' f) = None \<and> \<not> intersects flags (STORED_ON_MOUNT E) \<longrightarrow>
      new_with_root E ac w r flags = (Inl ASSERT_no_kernel, w)) \<and>
   (\<forall>e. fst (new_with_root E ac w r flags) = Inl e \<longrightarrow>
      e = ASSERT_flags_intersect \<or> e = ASSERT_no_kernel \<or> e = ZX_ASSERT_ac_check)"
  by (auto simp: new_with_root_cases split: option.splits if_splits)

theorem C10_new_with_root_kernel_witness:
  "fs_at w0 (fs (node' root0)) = Some fs0 \<and> kernels w0 (kernel' fs0) = Some k0 \<and>
   \<not> intersects 0 (STORED_ON_MOUNT example_flags) \<and>
   new_with_root example_flags True w0 root0 0 =
     (Inr (Ref (Mount 1 0 root0 0 None)),
      \<lparr>kernels = [0 \<mapsto> \<lparr>next_mount_id' = 2, anon_fs' = None\<rparr>], filesystems = [fs0]\<rparr>) \<and>
   fs_at w_dead (fs (node' root0)) = Some fs0 \<and> kernels w_dead (kernel' fs0) = None \<and>
   new_with_root example_flags True w_dead root0 0 = (Inl ASSERT_no_kernel, w_dead)"
proof -
  have f: "fs_at w0 (fs (node' root0)) = Some fs0" "fs_at w_dead (fs (node' root0)) = Some fs0"
    by (simp_all add: fs_at_def w0_def w_dead_def root0_def)
  have k: "kernels w0 (kernel' fs0) = Some k0" "kernels w_dead (kernel' fs0) = None"
    by (simp_all add: w0_def w_dead_def fs0_def)
  have i: "\<not> intersects 0 (STORED_ON_MOUNT example_flags)"
    by (simp add: intersects_def)
  from C10_new_with_root_kernel [OF f(1), of example_flags True 0] k(1) i
  have live: "new_with_root example_flags True w0 root0 0 =
     (Inr (Ref (Mount 1 0 root0 0 None)),
      \<lparr>kernels = [0 \<mapsto> \<lparr>next_mount_id' = 2, anon_fs' = None\<rparr>], filesystems = [fs0]\<rparr>)"
    by (simp add: w0_def k0_def root0_def fs0_def)
  from C10_new_with_root_kernel [OF f(2), of example_flags True 0] k(2) i
  have dead: "new_with_root example_flags True w_dead root0 0 = (Inl ASSERT_no_kernel, w_dead)"
    by simp
  from f k i live dead show ?thesis by simp
qed

section \<open>Sequential executions: the effect of one call and of a run\<close>

lemma anon_fs_Inr:
  assumes "anon_fs ac w kern = (Inr h, w1)"
  obtains K where "kernels w kern = Some K" and "anon_fs' K = Some h" and "w1 = w"
  | K where "kernels w kern = Some K" and "anon_fs' K = None" and "ac"
      and "h = length (filesystems w)"
      and "w1 = \<lparr>kernels = (kernels w)(kern \<mapsto> K\<lparr>anon_fs' := Some h\<rparr>),
                 filesystems = filesystems w @
                   [\<lparr>kernel' = kern, root_entry = None, cache_mode = Uncached, ops = AnonFs\<rparr>]\<rparr>"
  using assms
  by (cases w) (auto simp: anon_fs_def is_initialized_def OnceCell_set_def OnceCell_get_def FileSystem_New_def
      split: option.splits if_splits)


lemma map_sum_id_Inr: "map_sum id g y = Inr x \<longleftrightarrow> (\<exists>h. y = Inr h \<and> x = g h)"
  by (cases y) auto

lemma exec_Inr_cases:
  assumes "exec E w c = (Inr x, w1)"
  obtains (same) "w1 = w" "\<forall>m. x \<noteq> ret_mount (Ref m)"
      "\<forall>ac kern h. c = call_anon_fs ac kern \<and> x = ret_fs h \<longrightarrow>
         (\<exists>K. kernels w kern = Some K \<and> anon_fs' K = Some h)"
      "\<forall>ac kern. c = call_anon_fs ac kern \<longrightarrow> (\<exists>h. x = ret_fs h)"
  | (mount) f k r flags where "fs_at w (fs (node' r)) = Some f" "kernels w (kernel' f) = Some k"
      "x = ret_mount (Ref (Mount (next_mount_id' k) flags r (fs (node' r)) None))"
      "w1 = w\<lparr>kernels := (kernels w)(kernel' f \<mapsto> k\<lparr>next_mount_id' := next_mount_id' k + 1\<rparr>)\<rparr>"
      "\<forall>ac kern. c \<noteq> call_anon_fs ac kern"
  | (anon) kern K where "c = call_anon_fs True kern" "kernels w kern = Some K" "anon_fs' K = None"
      "x = ret_fs (length (filesystems w))"
      "w1 = \<lparr>kernels = (kernels w)(kern \<mapsto> K\<lparr>anon_fs' := Some (length (filesystems w))\<rparr>),
             filesystems = filesystems w @
               [\<lparr>kernel' = kern, root_entry = None, cache_mode = Uncached, ops = AnonFs\<rparr>]\<rparr>"
proof (cases c)
  case (call_new_with_root ac r flags)
  with assms obtain h where h: "new_with_root E ac w r flags = (Inr h, w1)" "x = ret_mount h"
    by (auto simp: exec_def map_sum_id_Inr split: prod.splits)
  from h(1) show ?thesis
    by (rule new_with_root_Inr) (rule mount, auto simp: h(2) call_new_with_root)
next
  case (call_Mount_New ac wh flags)
  with assms obtain h where h: "Mount_New E ac w wh flags = (Inr h, w1)" "x = ret_mount h"
    by (auto simp: exec_def map_sum_id_Inr split: prod.splits)
  from Mount_New_Inr [OF h(1)] show ?thesis
  proof
    assume "h = Null \<and> w1 = w"
    then show ?thesis using h(2) call_Mount_New by (intro same) auto
  next
    assume "\<exists>r. new_with_root E ac w r flags = (Inr h, w1)"
    then obtain r where "new_with_root E ac w r flags = (Inr h, w1)" ..
    then show ?thesis
      by (rule new_with_root_Inr) (rule mount, auto simp: h(2) call_Mount_New)
  qed
next
  case (call_anon_fs ac kern)
  with assms obtain h where h: "anon_fs ac w kern = (Inr h, w1)" "x = ret_fs h"
    by (auto simp: exec_def map_sum_id_Inr split: prod.splits)
  from h(1) show ?thesis
  proof (rule anon_fs_Inr)
    fix K assume "kernels w kern = Some K" "anon_fs' K = Some h" "w1 = w"
    then show ?thesis using h(2) call_anon_fs by (intro same) auto
  next
    fix K assume "kernels w kern = Some K" "anon_fs' K = None" "ac" "h = length (filesystems w)"
      "w1 = \<lparr>kernels = (kernels w)(kern \<mapsto> K\<lparr>anon_fs' := Some h\<rparr>),
                 filesystems = filesystems w @
                   [\<lparr>kernel' = kern, root_entry = None, cache_mode = Uncached, ops = AnonFs\<rparr>]\<rparr>"
    then show ?thesis using h(2) call_anon_fs by (intro anon) auto
  qed
qed


lemma fs_at_append: "fs_at w a = Some f \<Longrightarrow> filesystems w1 = filesystems w @ n \<Longrightarrow> fs_at w1 a = Some f"
  by (auto simp: fs_at_def nth_append split: if_splits)

lemma exec_filesystems:
  assumes "exec E w c = (Inr x, w1)"
  shows "\<exists>n. filesystems w1 = filesystems w @ n"
  using assms by (rule exec_Inr_cases) auto

lemma exec_kernel:
  assumes "exec E w c = (Inr x, w1)" and "kernels w k = Some K"
  shows "\<exists>K1. kernels w1 k = Some K1 \<and>
           (\<forall>h. anon_fs' K = Some h \<longrightarrow> anon_fs' K1 = Some h) \<and>
           (next_mount_id' K1 = next_mount_id' K \<or> next_mount_id' K1 = next_mount_id' K + 1)"
  using assms(1)
proof (cases rule: exec_Inr_cases)
  case same
  then show ?thesis using assms(2) by simp
next
  case (mount f k0 r flags)
  then show ?thesis using assms(2) by (cases "k = kernel' f") auto
next
  case (anon kern K0)
  then show ?thesis using assms(2) by (cases "k = kern") auto
qed

lemma exec_constructed_other:
  assumes "exec E w c = (Inr x, w1)" and "\<forall>ac. c \<noteq> call_anon_fs ac k"
  shows "constructed_for k w w1 = []"
  using assms(1)
proof (cases rule: exec_Inr_cases)
  case same
  then show ?thesis by (simp add: constructed_for_def)
next
  case (mount f k0 r flags)
  then show ?thesis by (simp add: constructed_for_def)
next
  case (anon kern K0)
  with assms(2) have "kern \<noteq> k" by auto
  with anon show ?thesis by (simp add: constructed_for_def)
qed

lemma exec_cell_set:
  assumes "exec E w c = (Inr x, w1)" and "kernels w k = Some K" and "anon_fs' K = Some h"
  shows "constructed_for k w w1 = [] \<and> (\<forall>ac. c = call_anon_fs ac k \<longrightarrow> x = ret_fs h)"
  using assms(1)
proof (cases rule: exec_Inr_cases)
  case same
  then show ?thesis using assms(2,3) by (auto simp: constructed_for_def)
next
  case (mount f k0 r flags)
  then show ?thesis by (simp add: constructed_for_def)
next
  case (anon kern K0)
  with assms(2,3) have "kern \<noteq> k" by auto
  with anon show ?thesis by (auto simp: constructed_for_def)
qed

lemma exec_anon_result:
  assumes "exec E w (call_anon_fs ac k) = (Inr x, w1)"
  shows "\<exists>h K1. x = ret_fs h \<and> kernels w1 k = Some K1 \<and> anon_fs' K1 = Some h \<and>
           length (constructed_for k w w1) \<le> 1"
  using assms
proof (cases rule: exec_Inr_cases)
  case same
  then show ?thesis by (auto simp: constructed_for_def)
next
  case (mount f k0 r flags)
  from mount(5) have False by blast
  then show ?thesis ..
next
  case (anon kern K0)
  then show ?thesis by (auto simp: constructed_for_def)
qed

lemma exec_mount:
  assumes "exec E w c = (Inr (ret_mount (Ref m)), w1)"
  shows "\<exists>f K. fs_at w (fs' m) = Some f \<and> kernels w (kernel' f) = Some K \<and>
           id' m = next_mount_id' K \<and>
           kernels w1 (kernel' f) = Some (K\<lparr>next_mount_id' := next_mount_id' K + 1\<rparr>)"
  using assms by (cases rule: exec_Inr_cases) auto

lemma run_Cons_Inr:
  assumes "run E w (c # cs) = Inr (rs, w')"
  obtains x xs w1 where "exec E w c = (Inr x, w1)" and "run E w1 cs = Inr (xs, w')" and "rs = x # xs"
  using assms by (auto split: prod.splits sum.splits)

lemma run_filesystems: "run E w cs = Inr (rs, w') \<Longrightarrow> \<exists>n. filesystems w' = filesystems w @ n"
proof (induction cs arbitrary: w rs)
  case Nil
  then show ?case by simp
next
  case (Cons c cs)
  from Cons.prems obtain x xs w1 where
    e: "exec E w c = (Inr x, w1)" and r: "run E w1 cs = Inr (xs, w')"
    by (rule run_Cons_Inr)
  from exec_filesystems [OF e] Cons.IH [OF r] show ?case by auto
qed

lemma constructed_for_trans:
  assumes "filesystems w1 = filesystems w @ n1" and "filesystems w2 = filesystems w1 @ n2"
  shows "constructed_for k w w2 = constructed_for k w w1 @ constructed_for k w1 w2"
  using assms by (simp add: constructed_for_def)

lemma run_cell_set:
  "run E w cs = Inr (rs, w') \<Longrightarrow> kernels w k = Some K \<Longrightarrow> anon_fs' K = Some h \<Longrightarrow>
   constructed_for k w w' = [] \<and>
   (\<forall>i ac. i < length cs \<and> cs ! i = call_anon_fs ac k \<longrightarrow> rs ! i = ret_fs h)"
proof (induction cs arbitrary: w rs K)
  case Nil
  then show ?case by (simp add: constructed_for_def)
next
  case (Cons c cs)
  from Cons.prems(1) obtain x xs w1 where
    e: "exec E w c = (Inr x, w1)" and r: "run E w1 cs = Inr (xs, w')" and rs: "rs = x # xs"
    by (rule run_Cons_Inr)
  from exec_kernel [OF e Cons.prems(2)] Cons.prems(3) obtain K1 where
    K1: "kernels w1 k = Some K1" "anon_fs' K1 = Some h" by auto
  note ih = Cons.IH [OF r K1]
  note st = exec_cell_set [OF e Cons.prems(2,3)]
  from exec_filesystems [OF e] obtain n1 where n1: "filesystems w1 = filesystems w @ n1" ..
  from run_filesystems [OF r] obtain n2 where n2: "filesystems w' = filesystems w1 @ n2" ..
  have "constructed_for k w w' = []"
    using constructed_for_trans [OF n1 n2, of k] ih st by simp
  moreover have "rs ! i = ret_fs h" if "i < length (c # cs)" "(c # cs) ! i = call_anon_fs ac k" for i ac
  proof (cases i)
    case 0
    with that st rs show ?thesis by simp
  next
    case (Suc i')
    with that ih rs show ?thesis by auto
  qed
  ultimately show ?case by blast
qed

lemma run_anon_fs_singleton:
  "run E w cs = Inr (rs, w') \<Longrightarrow>
   (\<forall>i j aci acj. i < length cs \<and> j < length cs \<and> cs ! i = call_anon_fs aci k \<and>
       cs ! j = call_anon_fs acj k \<longrightarrow> rs ! i = rs ! j) \<and>
   length (constructed_for k w w') \<le> 1"
proof (induction cs arbitrary: w rs)
  case Nil
  then show ?case by (simp add: constructed_for_def)
next
  case (Cons c cs)
  from Cons.prems(1) obtain x xs w1 where
    e: "exec E w c = (Inr x, w1)" and r: "run E w1 cs = Inr (xs, w')" and rs: "rs = x # xs"
    by (rule run_Cons_Inr)
  from exec_filesystems [OF e] obtain n1 where n1: "filesystems w1 = filesystems w @ n1" ..
  from run_filesystems [OF r] obtain n2 where n2: "filesystems w' = filesystems w1 @ n2" ..
  note tr = constructed_for_trans [OF n1 n2, of k]
  show ?case
  proof (cases "\<exists>ac. c = call_anon_fs ac k")
    case True
    then obtain ac where c: "c = call_anon_fs ac k" ..
    from exec_anon_result [OF e [unfolded c]] obtain h K1 where
      h: "x = ret_fs h" "kernels w1 k = Some K1" "anon_fs' K1 = Some h"
         "length (constructed_for k w w1) \<le> 1" by blast
    note later = run_cell_set [OF r h(2,3)]
    have all: "rs ! i = ret_fs h" if "i < length (c # cs)" "(c # cs) ! i = call_anon_fs a k" for i a
    proof (cases i)
      case 0
      with rs h show ?thesis by simp
    next
      case (Suc i')
      with that later rs show ?thesis by auto
    qed
    have "length (constructed_for k w w') \<le> 1"
      using tr later h(4) by simp
    with all show ?thesis by metis
  next
    case False
    then have no: "\<forall>ac. c \<noteq> call_anon_fs ac k" by simp
    note ih = Cons.IH [OF r]
    have "rs ! i = rs ! j" if "i < length (c # cs)" "j < length (c # cs)"
      "(c # cs) ! i = call_anon_fs aci k" "(c # cs) ! j = call_anon_fs acj k" for i j aci acj
    proof -
      from that(3) no obtain i' where i: "i = Suc i'" by (cases i) auto
      from that(4) no obtain j' where j: "j = Suc j'" by (cases j) auto
      from that i j have "xs ! i' = xs ! j'"
        using ih by auto
      with i j rs show ?thesis by simp
    qed
    moreover have "length (constructed_for k w w') \<le> 1"
      using tr exec_constructed_other [OF e no] ih by simp
    ultimately show ?thesis by blast
  qed
qed


lemma run_fs_at:
  assumes "run E w cs = Inr (rs, w')" and "fs_at w a = Some f"
  shows "fs_at w' a = Some f"
proof -
  from run_filesystems [OF assms(1)] obtain n where "filesystems w' = filesystems w @ n" ..
  with assms(2) show ?thesis by (rule fs_at_append)
qed

lemma exec_fs_at:
  assumes "exec E w c = (Inr x, w1)" and "fs_at w a = Some f"
  shows "fs_at w1 a = Some f"
proof -
  from exec_filesystems [OF assms(1)] obtain n where "filesystems w1 = filesystems w @ n" ..
  with assms(2) show ?thesis by (rule fs_at_append)
qed

lemma mounts_on_Cons:
  "mounts_on k w (x # xs) =
     (case x of
        ret_mount (Ref m) \<Rightarrow> (if mount_kernel w m = Some k then [m] else [])
      | _ \<Rightarrow> []) @ mounts_on k w xs"
proof (cases x)
  case (ret_mount h)
  then show ?thesis by (cases h) (simp_all add: mounts_on_def)
next
  case (ret_fs a)
  then show ?thesis by (simp add: mounts_on_def)
qed

lemma run_created_ids:
  "run E w cs = Inr (rs, w') \<Longrightarrow> kernels w k = Some K \<Longrightarrow>
   map id' (mounts_on k w' rs) =
     map (\<lambda>i. next_mount_id' K + of_nat i) [0..<length (mounts_on k w' rs)]"
proof (induction cs arbitrary: w rs K)
  case Nil
  then show ?case by (simp add: mounts_on_def)
next
  case (Cons c cs)
  from Cons.prems(1) obtain x xs w1 where
    e: "exec E w c = (Inr x, w1)" and r: "run E w1 cs = Inr (xs, w')" and rs: "rs = x # xs"
    by (rule run_Cons_Inr)
  from e show ?case
  proof (cases rule: exec_Inr_cases)
    case same
    from same(2) have "mounts_on k w' (x # xs) = mounts_on k w' xs"
      by (auto simp: mounts_on_Cons split: ret.splits RefPtr.splits)
    moreover from same(1) Cons.prems(2) have "kernels w1 k = Some K" by simp
    ultimately show ?thesis using Cons.IH [OF r] rs by simp
  next
    case (mount f k0 r0 flags)
    let ?m = "Mount (next_mount_id' k0) flags r0 (fs (node' r0)) None"
    from run_fs_at [OF r exec_fs_at [OF e mount(1)]]
    have mk: "mount_kernel w' ?m = Some (kernel' f)" by (simp add: mount_kernel_def)
    show ?thesis
    proof (cases "kernel' f = k")
      case True
      with mount(2) Cons.prems(2) have k0: "k0 = K" by simp
      from mount(4) True k0
      have K1: "kernels w1 k = Some (K\<lparr>next_mount_id' := next_mount_id' K + 1\<rparr>)" by simp
      from mk True mount(3) k0 have split: "mounts_on k w' (x # xs) = ?m # mounts_on k w' xs"
        by (simp add: mounts_on_Cons)
      from Cons.IH [OF r K1]
      have "map id' (mounts_on k w' xs) =
        map (\<lambda>i. next_mount_id' K + of_nat (Suc i)) [0..<length (mounts_on k w' xs)]"
        by (simp add: ac_simps)
      with split k0 rs show ?thesis
        by (simp add: map_upt_Suc del: upt_Suc)
    next
      case False
      with mount(4) Cons.prems(2) have K1: "kernels w1 k = Some K" by simp
      from mk False mount(3) have "mounts_on k w' (x # xs) = mounts_on k w' xs"
        by (simp add: mounts_on_Cons)
      with Cons.IH [OF r K1] rs show ?thesis by simp
    qed
  next
    case (anon kern K0)
    from anon(4) have split: "mounts_on k w' (x # xs) = mounts_on k w' xs"
      by (simp add: mounts_on_Cons)
    show ?thesis
    proof (cases "kern = k")
      case True
      with anon(2,5) Cons.prems(2)
      have "kernels w1 k = Some (K\<lparr>anon_fs' := Some (length (filesystems w))\<rparr>)" by simp
      from Cons.IH [OF r this] split rs show ?thesis by simp
    next
      case False
      with anon(5) Cons.prems(2) have "kernels w1 k = Some K" by simp
      from Cons.IH [OF r this] split rs show ?thesis by simp
    qed
  qed
qed

lemma unat_counter_plus:
  fixes c :: u64
  assumes "unat c + i < 2 ^ 64"
  shows "unat (c + of_nat i) = unat c + i"
proof -
  from assms have "i < 2 ^ 64" by simp
  then have i: "unat (of_nat i :: u64) = i" by (simp add: unat_of_nat)
  with assms have "unat c + unat (of_nat i :: u64) < 2 ^ LENGTH(64)" by simp
  then have "unat (c + of_nat i) = unat c + unat (of_nat i :: u64)" by (simp only: unat_add_lem)
  with i show ?thesis by simp
qed

section \<open>Mount ids\<close>

text \<open>
  C5. A mount constructed by \<^verbatim>\<open>new_with_root\<close> gets as id the value that the mount-id counter
  of its kernel hands out, and the kernel keeps the counter that \<^verbatim>\<open>next()\<close> leaves. In a
  sequential execution, whatever other calls come in between, the mounts created on one
  kernel get the successive values of its counter: while the counter is monotonic (the ids
  it hands out in the execution do not pass the largest \<^verbatim>\<open>uint64_t\<close>), the mount created as
  number \<open>i\<close> on the kernel has the id (start value + \<open>i\<close>). So of any two mounts created on
  the same kernel the later one has the strictly greater id, and no two of them share an id.
\<close>

theorem C5_mount_ids:
  "(\<forall>ac r flags m w1. new_with_root E ac w r flags = (Inr (Ref m), w1) \<longrightarrow>
      (\<exists>f K0. fs_at w (fs (node' r)) = Some f \<and> kernels w (kernel' f) = Some K0 \<and>
         id' m = fst (AtomicCounter_next (next_mount_id' K0)) \<and>
         kernels w1 (kernel' f) =
           Some (K0\<lparr>next_mount_id' := snd (AtomicCounter_next (next_mount_id' K0))\<rparr>))) \<and>
   (run E w cs = Inr (rs, w') \<and> kernels w k = Some K \<and>
    unat (next_mount_id' K) + length (mounts_on k w' rs) \<le> 2 ^ 64 \<longrightarrow>
      (\<forall>i. i < length (mounts_on k w' rs) \<longrightarrow>
         unat (id' (mounts_on k w' rs ! i)) = unat (next_mount_id' K) + i) \<and>
      (\<forall>i j. i < j \<and> j < length (mounts_on k w' rs) \<longrightarrow>
         id' (mounts_on k w' rs ! i) < id' (mounts_on k w' rs ! j)) \<and>
      distinct (map id' (mounts_on k w' rs)))"
proof (intro conjI allI impI)
  fix ac r flags m w1
  assume "new_with_root E ac w r flags = (Inr (Ref m), w1)"
  then show "\<exists>f K0. fs_at w (fs (node' r)) = Some f \<and> kernels w (kernel' f) = Some K0 \<and>
         id' m = fst (AtomicCounter_next (next_mount_id' K0)) \<and>
         kernels w1 (kernel' f) =
           Some (K0\<lparr>next_mount_id' := snd (AtomicCounter_next (next_mount_id' K0))\<rparr>)"
    by (rule new_with_root_Inr) (auto simp: AtomicCounter_next_def)
next
  assume a: "run E w cs = Inr (rs, w') \<and> kernels w k = Some K \<and>
    unat (next_mount_id' K) + length (mounts_on k w' rs) \<le> 2 ^ 64"
  let ?ms = "mounts_on k w' rs"
  from a have ids: "map id' ?ms = map (\<lambda>i. next_mount_id' K + of_nat i) [0..<length ?ms]"
    using run_created_ids [of E w cs rs w' k K] by blast
  have nth: "unat (id' (?ms ! i)) = unat (next_mount_id' K) + i" if "i < length ?ms" for i
  proof -
    from that have "id' (?ms ! i) = map id' ?ms ! i" by simp
    also from that have "\<dots> = next_mount_id' K + of_nat i" by (simp only: ids) simp
    finally have "id' (?ms ! i) = next_mount_id' K + of_nat i" .
    moreover from a that have "unat (next_mount_id' K) + i < 2 ^ 64" by simp
    ultimately show ?thesis by (simp add: unat_counter_plus)
  qed
  {
    fix i assume "i < length ?ms"
    then show "unat (id' (?ms ! i)) = unat (next_mount_id' K) + i" by (rule nth)
  next
    fix i j assume "i < j \<and> j < length ?ms"
    then show "id' (?ms ! i) < id' (?ms ! j)"
      by (simp add: word_less_nat_alt nth)
  next
    have "id' (?ms ! i) \<noteq> id' (?ms ! j)" if "i < length ?ms" "j < length ?ms" "i \<noteq> j" for i j
    proof
      assume "id' (?ms ! i) = id' (?ms ! j)"
      then have "unat (id' (?ms ! i)) = unat (id' (?ms ! j))" by simp
      with that show False by (simp add: nth)
    qed
    then show "distinct (map id' ?ms)"
      by (simp add: distinct_conv_nth)
  }
qed

lemma run_two_mounts_w0:
  "run example_flags w0 [call_new_with_root True root0 0, call_anon_fs True 0,
                          call_Mount_New True \<lparr>type = Fs, what = WhatFs 0\<rparr> 0] =
   Inr ([ret_mount (Ref (Mount 1 0 root0 0 None)), ret_fs 1, ret_mount (Ref (Mount 2 0 root0 0 None))],
        \<lparr>kernels = [0 \<mapsto> \<lparr>next_mount_id' = 3, anon_fs' = Some 1\<rparr>],
         filesystems = [fs0, \<lparr>kernel' = 0, root_entry = None, cache_mode = Uncached, ops = AnonFs\<rparr>]\<rparr>)"
  by (simp add: exec_def new_with_root_cases Mount_New_def FileSystem_root_def anon_fs_def
      FileSystem_New_def is_initialized_def OnceCell_set_def OnceCell_get_def
      example_flags_def w0_def root0_def fs0_def k0_def fs_at_def intersects_def)

theorem C5_mount_ids_witness:
  "run example_flags w0 [call_new_with_root True root0 0, call_anon_fs True 0,
                          call_Mount_New True \<lparr>type = Fs, what = WhatFs 0\<rparr> 0] =
   Inr ([ret_mount (Ref (Mount 1 0 root0 0 None)), ret_fs 1, ret_mount (Ref (Mount 2 0 root0 0 None))],
        \<lparr>kernels = [0 \<mapsto> \<lparr>next_mount_id' = 3, anon_fs' = Some 1\<rparr>],
         filesystems = [fs0, \<lparr>kernel' = 0, root_entry = None, cache_mode = Uncached, ops = AnonFs\<rparr>]\<rparr>) \<and>
   kernels w0 0 = Some k0 \<and>
   mounts_on 0
     \<lparr>kernels = [0 \<mapsto> \<lparr>next_mount_id' = 3, anon_fs' = Some 1\<rparr>],
      filesystems = [fs0, \<lparr>kernel' = 0, root_entry = None, cache_mode = Uncached, ops = AnonFs\<rparr>]\<rparr>
     [ret_mount (Ref (Mount 1 0 root0 0 None)), ret_fs 1, ret_mount (Ref (Mount 2 0 root0 0 None))] =
     [Mount 1 0 root0 0 None, Mount 2 0 root0 0 None] \<and>
   unat (next_mount_id' k0) + 2 \<le> 2 ^ 64 \<and>
   id' (Mount 1 0 root0 0 None) < id' (Mount 2 0 root0 0 None) \<and>
   unat (id' (Mount 2 0 root0 0 None)) = unat (next_mount_id' k0) + 1"
proof -
  let ?w = "\<lparr>kernels = [0 \<mapsto> \<lparr>next_mount_id' = 3, anon_fs' = Some 1\<rparr>],
         filesystems = [fs0, \<lparr>kernel' = 0, root_entry = None, cache_mode = Uncached, ops = AnonFs\<rparr>]\<rparr>"
  let ?cs = "[call_new_with_root True root0 0, call_anon_fs True 0,
              call_Mount_New True \<lparr>type = Fs, what = WhatFs 0\<rparr> 0]"
  let ?rs = "[ret_mount (Ref (Mount 1 0 root0 0 None)), ret_fs 1, ret_mount (Ref (Mount 2 0 root0 0 None))]"
  note r = run_two_mounts_w0
  have k: "kernels w0 0 = Some k0" by (simp add: w0_def)
  have ms: "mounts_on 0 ?w ?rs = [Mount 1 0 root0 0 None, Mount 2 0 root0 0 None]"
    by (simp add: mounts_on_def mount_kernel_def fs_at_def fs0_def)
  have u: "unat (next_mount_id' k0) + length (mounts_on 0 ?w ?rs) \<le> 2 ^ 64"
    by (simp only: ms) (simp add: k0_def)
  note inst = C5_mount_ids [of example_flags w0 ?cs ?rs ?w 0 k0]
  from inst r k u
  have A: "\<forall>i. i < length (mounts_on 0 ?w ?rs) \<longrightarrow>
         unat (id' (mounts_on 0 ?w ?rs ! i)) = unat (next_mount_id' k0) + i"
    by blast
  from inst r k u
  have B: "\<forall>i j. i < j \<and> j < length (mounts_on 0 ?w ?rs) \<longrightarrow>
         id' (mounts_on 0 ?w ?rs ! i) < id' (mounts_on 0 ?w ?rs ! j)"
    by blast
  from A [unfolded ms, rule_format, of 1]
  have a: "unat (id' (Mount 2 0 root0 0 None)) = unat (next_mount_id' k0) + 1" by simp
  from B [unfolded ms, rule_format, of 0 1]
  have b: "id' (Mount 1 0 root0 0 None) < id' (Mount 2 0 root0 0 None)" by simp
  have u': "unat (next_mount_id' k0) + 2 \<le> 2 ^ 64" by (simp add: k0_def)
  from r k ms u' a b show ?thesis by blast
qed

section \<open>The anonymous file system\<close>

text \<open>
  C8. In a sequential execution every call of \<^verbatim>\<open>anon_fs\<close> for one kernel returns the same
  handle, and at most one file system is constructed for that kernel, whatever other calls
  come in between. The first call, on a kernel whose cell is empty, constructs the file
  system at a fresh address and stores its handle in the cell. Calling \<^verbatim>\<open>anon_fs\<close> again
  after a call that returned gives the same handle and leaves the store unchanged.
\<close>

theorem C8_anon_fs_singleton:
  "(run E w cs = Inr (rs, w') \<longrightarrow>
      (\<forall>i j aci acj. i < length cs \<and> j < length cs \<and> cs ! i = call_anon_fs aci kern \<and>
         cs ! j = call_anon_fs acj kern \<longrightarrow> rs ! i = rs ! j) \<and>
      length (constructed_for kern w w') \<le> 1) \<and>
   (kernels w kern = Some K \<and> anon_fs' K = None \<longrightarrow>
      anon_fs True w kern =
        (Inr (length (filesystems w)),
         \<lparr>kernels = (kernels w)(kern \<mapsto> K\<lparr>anon_fs' := Some (length (filesystems w))\<rparr>),
          filesystems = filesystems w @
            [\<lparr>kernel' = kern, root_entry = None, cache_mode = Uncached, ops = AnonFs\<rparr>]\<rparr>)) \<and>
   (\<forall>ac h w1 ac2. anon_fs ac w kern = (Inr h, w1) \<longrightarrow> anon_fs ac2 w1 kern = (Inr h, w1))"
proof (intro conjI)
  show "run E w cs = Inr (rs, w') \<longrightarrow>
      (\<forall>i j aci acj. i < length cs \<and> j < length cs \<and> cs ! i = call_anon_fs aci kern \<and>
         cs ! j = call_anon_fs acj kern \<longrightarrow> rs ! i = rs ! j) \<and>
      length (constructed_for kern w w') \<le> 1"
    using run_anon_fs_singleton [of E w cs rs w' kern] by blast
next
  show "kernels w kern = Some K \<and> anon_fs' K = None \<longrightarrow>
      anon_fs True w kern =
        (Inr (length (filesystems w)),
         \<lparr>kernels = (kernels w)(kern \<mapsto> K\<lparr>anon_fs' := Some (length (filesystems w))\<rparr>),
          filesystems = filesystems w @
            [\<lparr>kernel' = kern, root_entry = None, cache_mode = Uncached, ops = AnonFs\<rparr>]\<rparr>)"
    by (cases w) (simp add: anon_fs_def is_initialized_def OnceCell_set_def OnceCell_get_def
        FileSystem_New_def)
next
  show "\<forall>ac h w1 ac2. anon_fs ac w kern = (Inr h, w1) \<longrightarrow> anon_fs ac2 w1 kern = (Inr h, w1)"
  proof (intro allI impI)
    fix ac h w1 ac2
    assume "anon_fs ac w kern = (Inr h, w1)"
    then show "anon_fs ac2 w1 kern = (Inr h, w1)"
      by (rule anon_fs_Inr)
        (simp_all add: anon_fs_def is_initialized_def OnceCell_get_def)
  qed
qed

lemma run_anon_fs_w0:
  "run example_flags w0 [call_anon_fs True 0, call_new_with_root True root0 0, call_anon_fs False 0] =
   Inr ([ret_fs 1, ret_mount (Ref (Mount 1 0 root0 0 None)), ret_fs 1],
        \<lparr>kernels = [0 \<mapsto> \<lparr>next_mount_id' = 2, anon_fs' = Some 1\<rparr>],
         filesystems = [fs0, \<lparr>kernel' = 0, root_entry = None, cache_mode = Uncached, ops = AnonFs\<rparr>]\<rparr>)"
  by (simp add: exec_def new_with_root_cases anon_fs_def
      FileSystem_New_def is_initialized_def OnceCell_set_def OnceCell_get_def
      example_flags_def w0_def root0_def fs0_def k0_def fs_at_def intersects_def)

theorem C8_anon_fs_singleton_witness:
  "run example_flags w0 [call_anon_fs True 0, call_new_with_root True root0 0, call_anon_fs False 0] =
   Inr ([ret_fs 1, ret_mount (Ref (Mount 1 0 root0 0 None)), ret_fs 1],
        \<lparr>kernels = [0 \<mapsto> \<lparr>next_mount_id' = 2, anon_fs' = Some 1\<rparr>],
         filesystems = [fs0, \<lparr>kernel' = 0, root_entry = None, cache_mode = Uncached, ops = AnonFs\<rparr>]\<rparr>) \<and>
   kernels w0 0 = Some k0 \<and> anon_fs' k0 = None \<and>
   anon_fs True w0 0 =
     (Inr 1, \<lparr>kernels = [0 \<mapsto> \<lparr>next_mount_id' = 1, anon_fs' = Some 1\<rparr>],
         filesystems = [fs0, \<lparr>kernel' = 0, root_entry = None, cache_mode = Uncached, ops = AnonFs\<rparr>]\<rparr>) \<and>
   anon_fs False
     \<lparr>kernels = [0 \<mapsto> \<lparr>next_mount_id' = 1, anon_fs' = Some 1\<rparr>],
         filesystems = [fs0, \<lparr>kernel' = 0, root_entry = None, cache_mode = Uncached, ops = AnonFs\<rparr>]\<rparr> 0 =
     (Inr 1, \<lparr>kernels = [0 \<mapsto> \<lparr>next_mount_id' = 1, anon_fs' = Some 1\<rparr>],
         filesystems = [fs0, \<lparr>kernel' = 0, root_entry = None, cache_mode = Uncached, ops = AnonFs\<rparr>]\<rparr>) \<and>
   length (constructed_for 0 w0
     \<lparr>kernels = [0 \<mapsto> \<lparr>next_mount_id' = 2, anon_fs' = Some 1\<rparr>],
         filesystems = [fs0, \<lparr>kernel' = 0, root_entry = None, cache_mode = Uncached, ops = AnonFs\<rparr>]\<rparr>) = 1"
proof -
  let ?fss = "[fs0, \<lparr>kernel' = 0, root_entry = None, cache_mode = Uncached, ops = AnonFs\<rparr>]"
  let ?w1 = "\<lparr>kernels = [0 \<mapsto> \<lparr>next_mount_id' = 1, anon_fs' = Some 1\<rparr>], filesystems = ?fss\<rparr>"
  let ?w2 = "\<lparr>kernels = [0 \<mapsto> \<lparr>next_mount_id' = 2, anon_fs' = Some 1\<rparr>], filesystems = ?fss\<rparr>"
  note r = run_anon_fs_w0
  have k: "kernels w0 0 = Some k0" "anon_fs' k0 = None" by (simp_all add: w0_def k0_def)
  note inst = C8_anon_fs_singleton [of example_flags w0
      "[call_anon_fs True 0, call_new_with_root True root0 0, call_anon_fs False 0]"
      "[ret_fs 1, ret_mount (Ref (Mount 1 0 root0 0 None)), ret_fs 1]" ?w2 0 k0]
  from inst k have first: "anon_fs True w0 0 = (Inr 1, ?w1)"
    by (simp add: w0_def k0_def)
  from inst first have again: "anon_fs False ?w1 0 = (Inr 1, ?w1)" by blast
  have c: "length (constructed_for 0 w0 ?w2) = 1"
    by (simp add: constructed_for_def w0_def)
  from r k first again c show ?thesis by simp
qed

end
